theory Spec2Isabelle
  imports Main "HOL-Library.Multiset" "HOL-Library.Char_ord" "HOL-Library.List_Lexorder"
    "HOL-Library.Product_Lexorder" "HOL-Library.AList"
begin

section \<open>Text primitives\<close>

text \<open>
  Python strings are modelled as \<^typ>\<open>string\<close>, a character being a code point below 256
  (Latin-1, of which ASCII is the lower half); on these the definitions below agree with
  \<^verbatim>\<open>str.lower\<close>, \<^verbatim>\<open>str.isspace\<close> and \<^verbatim>\<open>str.strip\<close>. Comparison of strings is lexicographic
  by code point, as Python's \<^verbatim>\<open><\<close> on \<^verbatim>\<open>str\<close> is.
\<close>

text \<open>
  The code points below 256 that \<^verbatim>\<open>str.lower()\<close> changes: A to Z, and the accented capitals
  192 to 222 without the multiplication sign 215. Each is mapped to the code point 32
  above it.
\<close>

definition upper_letter :: "char \<Rightarrow> bool" where
  "upper_letter c =
     (let n = (of_char c :: nat) in
      (65 \<le> n \<and> n \<le> 90) \<or> (192 \<le> n \<and> n \<le> 214) \<or> (216 \<le> n \<and> n \<le> 222))"

definition lower_char :: "char \<Rightarrow> char" where
  "lower_char c = (if upper_letter c then char_of (of_char c + 32 :: nat) else c)"

definition lower :: "string \<Rightarrow> string" where
  "lower s = map lower_char s"

text \<open>
  \<^verbatim>\<open>str.isspace()\<close> for one code point below 256: tab, line feed, vertical tab, form feed,
  carriage return (9 to 13), the four separators 28 to 31, the space (32), the next-line
  control 133 and the no-break space 160.
\<close>

definition isspace :: "char \<Rightarrow> bool" where
  "isspace c =
     (let n = (of_char c :: nat) in
      (9 \<le> n \<and> n \<le> 13) \<or> (28 \<le> n \<and> n \<le> 32) \<or> n = 133 \<or> n = 160)"

text \<open>\<^verbatim>\<open>s.rstrip(chars)\<close> and \<^verbatim>\<open>s.strip()\<close>, the set of characters given as a predicate.\<close>

definition rstrip_chars :: "(char \<Rightarrow> bool) \<Rightarrow> string \<Rightarrow> string" where
  "rstrip_chars p s = rev (dropWhile p (rev s))"

definition strip :: "string \<Rightarrow> string" where
  "strip s = rstrip_chars isspace (dropWhile isspace s)"

section \<open>The join engine: \<^verbatim>\<open>build_urls\<close>\<close>

text \<open>
  A row of the normalised orders frame and of the normalised EAN frame. After
  \<^verbatim>\<open>read_orders\<close> and \<^verbatim>\<open>read_eans\<close> no cell is missing, so every field is a string.
  The EAN frame's columns are \<^verbatim>\<open>product\<close> and \<^verbatim>\<open>ean\<close>; its fields carry a prefix
  because the matched row below has fields of the same names.
\<close>

record order_row =
  purchase_order :: string
  product :: string
  base_url :: string

record ean_row =
  ean_product :: string
  ean_code :: string

text \<open>A row of the \<^verbatim>\<open>urls\<close> frame: the order's three columns, then \<^verbatim>\<open>ean\<close> and \<^verbatim>\<open>url\<close>.\<close>

record url_row = order_row +
  ean :: string
  url :: string

text \<open>The join key of lines 97 and 98: \<^verbatim>\<open>.str.strip().str.lower()\<close>.\<close>

definition product_key :: "string \<Rightarrow> string" where
  "product_key p = lower (strip p)"

text \<open>The rows of the right frame whose key is the key of the left row \<open>l\<close>.\<close>

definition partners :: "ean_row list \<Rightarrow> order_row \<Rightarrow> ean_row list" where
  "partners right l = filter (\<lambda>r. product_key (ean_product r) = product_key (product l)) right"

text \<open>
  \<^verbatim>\<open>left.merge(right[["product_key", "ean"]], on="product_key", how="left")\<close>: the rows
  of the left frame in their order, each once per right row with the same key, those in
  the right frame's order; a left row with no partner appears once with a missing
  \<^verbatim>\<open>ean\<close> (\<^const>\<open>None\<close>). The right frame is cut down to the key and the EAN before
  the join, and the key column is not read again after it.
\<close>

definition merge_left :: "order_row list \<Rightarrow> ean_row list \<Rightarrow> (order_row \<times> string option) list" where
  "merge_left left right =
     concat (map (\<lambda>l.
       case partners right l of
         [] \<Rightarrow> [(l, None)]
       | rs \<Rightarrow> map (\<lambda>r. (l, Some (ean_code r))) rs) left)"

text \<open>\<^verbatim>\<open>DataFrame.drop_duplicates()\<close>: the first occurrence of every row is kept.\<close>

fun drop_duplicates :: "'a list \<Rightarrow> 'a list" where
  "drop_duplicates [] = []"
| "drop_duplicates (x # xs) = x # drop_duplicates (filter (\<lambda>y. y \<noteq> x) xs)"

text \<open>The inner function of line 106: \<^verbatim>\<open>str(url).rstrip("/")\<close>.\<close>

definition normalize_base :: "string \<Rightarrow> string" where
  "normalize_base u = rstrip_chars (\<lambda>c. c = CHR ''/'') u"

text \<open>Lines 109 to 118 for one matched row of the merged frame.\<close>

definition compose_row :: "order_row \<Rightarrow> string \<Rightarrow> url_row" where
  "compose_row l e =
     \<lparr>purchase_order = purchase_order l, product = product l,
      base_url = normalize_base (base_url l), ean = e,
      url = normalize_base (base_url l) @ ''/01/'' @ e @ ''/10/'' @ purchase_order l\<rparr>"

text \<open>
  \<^verbatim>\<open>build_urls\<close>. The matched rows are those of the merged frame with an EAN, the
  unmatched ones the rest, cut down to the order's columns and freed of duplicates.
  \<^verbatim>\<open>sort_values\<close> on several columns is a stable sort, as \<^const>\<open>sort_key\<close> is.
\<close>

definition sort_columns :: "url_row \<Rightarrow> string \<times> string \<times> string" where
  "sort_columns r = (product r, purchase_order r, ean r)"

definition build_urls :: "order_row list \<Rightarrow> ean_row list \<Rightarrow> url_row list \<times> order_row list" where
  "build_urls orders eans =
     (let merged = merge_left orders eans;
          matched = concat (map (\<lambda>(l, e). case e of None \<Rightarrow> [] | Some c \<Rightarrow> [(l, c)]) merged);
          unmatched = drop_duplicates
            (concat (map (\<lambda>(l, e). case e of None \<Rightarrow> [l] | Some c \<Rightarrow> []) merged));
          result = map (\<lambda>(l, c). compose_row l c) matched
      in (sort_key sort_columns result, unmatched))"

text \<open>
  The rows the join produces before sorting, written without the merged frame: every
  order with each of its partners. \<^const>\<open>build_urls\<close> is shown below to sort exactly
  these rows.
\<close>

definition joined :: "order_row list \<Rightarrow> ean_row list \<Rightarrow> url_row list" where
  "joined orders eans =
     concat (map (\<lambda>l. map (\<lambda>r. compose_row l (ean_code r)) (partners eans l)) orders)"

text \<open>The order's columns of a row of the \<^verbatim>\<open>urls\<close> frame.\<close>

definition order_of :: "url_row \<Rightarrow> order_row" where
  "order_of r = \<lparr>purchase_order = purchase_order r, product = product r, base_url = base_url r\<rparr>"

subsection \<open>The matching rule in the specification's words\<close>

text \<open>
  The specification says that two product codes match when they are equal after trimming
  whitespace and lower-casing. The definitions of this subsection state that rule on its
  own, from tables of characters and without the functions of the code; it is compared
  with the key of \<^verbatim>\<open>build_urls\<close> below.
\<close>

text \<open>The whitespace characters below code point 256.\<close>

definition whitespace_chars :: "char list" where
  "whitespace_chars =
     [CHR 0x09, CHR 0x0A, CHR 0x0B, CHR 0x0C, CHR 0x0D, CHR 0x1C, CHR 0x1D, CHR 0x1E, CHR 0x1F,
      CHR 0x20, CHR 0x85, CHR 0xA0]"

text \<open>
  The capital letters below code point 256 and, position by position, their small
  letters.
\<close>

definition capital_letters :: "char list" where
  "capital_letters = ''ABCDEFGHIJKLMNOPQRSTUVWXYZ'' @
     [CHR 0xC0, CHR 0xC1, CHR 0xC2, CHR 0xC3, CHR 0xC4, CHR 0xC5, CHR 0xC6, CHR 0xC7,
      CHR 0xC8, CHR 0xC9, CHR 0xCA, CHR 0xCB, CHR 0xCC, CHR 0xCD, CHR 0xCE, CHR 0xCF,
      CHR 0xD0, CHR 0xD1, CHR 0xD2, CHR 0xD3, CHR 0xD4, CHR 0xD5, CHR 0xD6,
      CHR 0xD8, CHR 0xD9, CHR 0xDA, CHR 0xDB, CHR 0xDC, CHR 0xDD, CHR 0xDE]"

definition small_letters :: "char list" where
  "small_letters = ''abcdefghijklmnopqrstuvwxyz'' @
     [CHR 0xE0, CHR 0xE1, CHR 0xE2, CHR 0xE3, CHR 0xE4, CHR 0xE5, CHR 0xE6, CHR 0xE7,
      CHR 0xE8, CHR 0xE9, CHR 0xEA, CHR 0xEB, CHR 0xEC, CHR 0xED, CHR 0xEE, CHR 0xEF,
      CHR 0xF0, CHR 0xF1, CHR 0xF2, CHR 0xF3, CHR 0xF4, CHR 0xF5, CHR 0xF6,
      CHR 0xF8, CHR 0xF9, CHR 0xFA, CHR 0xFB, CHR 0xFC, CHR 0xFD, CHR 0xFE]"

text \<open>A text with every capital letter replaced by its small letter.\<close>

definition lowercased :: "string \<Rightarrow> string" where
  "lowercased s =
     map (\<lambda>c. case map_of (zip capital_letters small_letters) c of Some d \<Rightarrow> d | None \<Rightarrow> c) s"

text \<open>
  \<open>t\<close> is \<open>s\<close> trimmed: \<open>s\<close> is \<open>t\<close> between two runs of whitespace, and \<open>t\<close> neither
  begins nor ends with whitespace.
\<close>

definition trimmed :: "string \<Rightarrow> string \<Rightarrow> bool" where
  "trimmed s t \<longleftrightarrow>
     (\<exists>a b. s = a @ t @ b \<and> set a \<subseteq> set whitespace_chars \<and> set b \<subseteq> set whitespace_chars) \<and>
     (t = [] \<or> (hd t \<notin> set whitespace_chars \<and> last t \<notin> set whitespace_chars))"

text \<open>Two product codes match: trimmed and lower-cased they are the same text.\<close>

definition products_match :: "string \<Rightarrow> string \<Rightarrow> bool" where
  "products_match p q \<longleftrightarrow> (\<exists>s t. trimmed p s \<and> trimmed q t \<and> lowercased s = lowercased t)"

section \<open>The record normaliser: \<^verbatim>\<open>get_column\<close>, \<^verbatim>\<open>read_orders\<close>, \<^verbatim>\<open>read_eans\<close>\<close>

text \<open>
  A frame as \<^verbatim>\<open>pd.read_excel(path, dtype=str)\<close> returns it: its columns in order,
  each with its label and its cells; a cell is a string or missing (\<^const>\<open>None\<close>, pandas'
  NaN). All columns of a frame have the same number of cells.
\<close>

type_synonym cell = "string option"

type_synonym dataframe = "(string \<times> cell list) list"

text \<open>
  What \<^verbatim>\<open>df[label]\<close> gives: a \<^verbatim>\<open>Series\<close> when one column carries the label, a
  \<^verbatim>\<open>DataFrame\<close> of all the columns carrying it when several do.
\<close>

datatype selection = Series "cell list" | Frame "cell list list"

text \<open>
  The exceptions of the normaliser: the \<^verbatim>\<open>KeyError\<close> that \<^verbatim>\<open>get_column\<close> raises (the
  specification's \<^verbatim>\<open>MissingColumnError\<close>), and the \<^verbatim>\<open>AttributeError\<close> of \<^verbatim>\<open>.str\<close> on
  a \<^verbatim>\<open>DataFrame\<close>.
\<close>

datatype error = KeyError | AttributeError

definition normalize_column_names :: "dataframe \<Rightarrow> dataframe" where
  "normalize_column_names df = map (\<lambda>(c, cells). (strip c, cells)) df"

text \<open>
  The dictionary of line 49, from the stripped lower-case label to the label; of two
  columns with the same key the later one wins.
\<close>

definition lower_map :: "dataframe \<Rightarrow> string \<rightharpoonup> string" where
  "lower_map df = map_of (rev (map (\<lambda>(c, cells). (lower (strip c), c)) df))"

definition getitem :: "dataframe \<Rightarrow> string \<Rightarrow> selection" where
  "getitem df c =
     (case filter (\<lambda>col. fst col = c) df of
        [col] \<Rightarrow> Series (snd col)
      | cols \<Rightarrow> Frame (map snd cols))"

text \<open>
  \<^verbatim>\<open>get_column\<close>: the loop over the preferred names is the recursion; with no name left
  the column at the fallback position is taken, if the frame has one.
\<close>

fun get_column :: "dataframe \<Rightarrow> string list \<Rightarrow> int \<Rightarrow> error + selection" where
  "get_column df [] fallback_index =
     (if 0 \<le> fallback_index \<and> fallback_index < int (length df)
      then Inr (Series (snd (df ! nat fallback_index)))
      else Inl KeyError)"
| "get_column df (name # preferred_names) fallback_index =
     (case lower_map df (lower name) of
        Some c \<Rightarrow> Inr (getitem df c)
      | None \<Rightarrow> get_column df preferred_names fallback_index)"

text \<open>
  \<^verbatim>\<open>column.astype(str).str.strip()\<close>: a missing cell becomes the text \<^verbatim>\<open>nan\<close>; on a
  \<^verbatim>\<open>DataFrame\<close> the accessor \<^verbatim>\<open>.str\<close> does not exist.
\<close>

definition astype_str_strip :: "selection \<Rightarrow> error + string list" where
  "astype_str_strip sel =
     (case sel of
        Series cells \<Rightarrow> Inr (map (\<lambda>c. strip (case c of None \<Rightarrow> ''nan'' | Some s \<Rightarrow> s)) cells)
      | Frame cols \<Rightarrow> Inl AttributeError)"

text \<open>
  \<^verbatim>\<open>.replace({"": pd.NA, "nan": pd.NA})\<close> makes exactly these two texts missing, and
  \<^verbatim>\<open>dropna(how="any")\<close> then drops the row.
\<close>

definition absent :: "string \<Rightarrow> bool" where
  "absent s \<longleftrightarrow> s = [] \<or> s = ''nan''"

text \<open>Lines 62 to 65 of \<^verbatim>\<open>read_orders\<close>: the three columns of the frame read.\<close>

definition read_orders_columns :: "dataframe \<Rightarrow> error + (selection \<times> selection \<times> selection)" where
  "read_orders_columns df0 =
     (let df = normalize_column_names df0 in
      case get_column df [''purchase_order'', ''purchase order'', ''po''] 0 of
        Inl e \<Rightarrow> Inl e
      | Inr po_col \<Rightarrow>
     (case get_column df [''product'', ''product_code'', ''sku''] 1 of
        Inl e \<Rightarrow> Inl e
      | Inr product_col \<Rightarrow>
     (case get_column df [''base_url'', ''base url'', ''url''] 2 of
        Inl e \<Rightarrow> Inl e
      | Inr base_col \<Rightarrow> Inr (po_col, product_col, base_col))))"

text \<open>\<^verbatim>\<open>read_orders\<close> from the frame read: lines 66 to 73 follow the three columns.\<close>

definition read_orders :: "dataframe \<Rightarrow> error + order_row list" where
  "read_orders df0 =
     (case read_orders_columns df0 of
        Inl e \<Rightarrow> Inl e
      | Inr (po_col, product_col, base_col) \<Rightarrow>
     (case astype_str_strip po_col of
        Inl e \<Rightarrow> Inl e
      | Inr pos \<Rightarrow>
     (case astype_str_strip product_col of
        Inl e \<Rightarrow> Inl e
      | Inr prods \<Rightarrow>
     (case astype_str_strip base_col of
        Inl e \<Rightarrow> Inl e
      | Inr bases \<Rightarrow>
          Inr (filter (\<lambda>r. \<not> absent (purchase_order r) \<and> \<not> absent (product r) \<and> \<not> absent (base_url r))
                (map (\<lambda>(a, b, c). \<lparr>purchase_order = a, product = b, base_url = c\<rparr>)
                  (zip pos (zip prods bases))))))))"

text \<open>Lines 78 to 80 of \<^verbatim>\<open>read_eans\<close>.\<close>

definition read_eans_columns :: "dataframe \<Rightarrow> error + (selection \<times> selection)" where
  "read_eans_columns df0 =
     (let df = normalize_column_names df0 in
      case get_column df [''product'', ''product_code'', ''sku''] 0 of
        Inl e \<Rightarrow> Inl e
      | Inr product_col \<Rightarrow>
     (case get_column df [''ean'', ''barcode''] 1 of
        Inl e \<Rightarrow> Inl e
      | Inr ean_col \<Rightarrow> Inr (product_col, ean_col)))"

definition read_eans :: "dataframe \<Rightarrow> error + ean_row list" where
  "read_eans df0 =
     (case read_eans_columns df0 of
        Inl e \<Rightarrow> Inl e
      | Inr (product_col, ean_col) \<Rightarrow>
     (case astype_str_strip product_col of
        Inl e \<Rightarrow> Inl e
      | Inr prods \<Rightarrow>
     (case astype_str_strip ean_col of
        Inl e \<Rightarrow> Inl e
      | Inr codes \<Rightarrow>
          Inr (filter (\<lambda>r. \<not> absent (ean_product r) \<and> \<not> absent (ean_code r))
                (map (\<lambda>(a, b). \<lparr>ean_product = a, ean_code = b\<rparr>) (zip prods codes))))))"

section \<open>The output writer: \<^verbatim>\<open>process_pair\<close>\<close>

text \<open>
  The workbook written: its sheets in the order written, each with its name, its header
  row and its data rows (\<^verbatim>\<open>to_excel(writer, index=False, sheet_name=...)\<close>).
\<close>

type_synonym sheet = "string \<times> string list \<times> string list list"

definition urls_sheet :: "url_row list \<Rightarrow> sheet" where
  "urls_sheet rs =
     (''urls'', [''purchase_order'', ''product'', ''base_url'', ''ean'', ''url''],
      map (\<lambda>r. [purchase_order r, product r, base_url r, ean r, url r]) rs)"

definition unmatched_sheet :: "order_row list \<Rightarrow> sheet" where
  "unmatched_sheet rs =
     (''unmatched_orders'', [''purchase_order'', ''product'', ''base_url''],
      map (\<lambda>r. [purchase_order r, product r, base_url r]) rs)"

text \<open>Lines 129 to 132: the sheets the writer holds when the \<^verbatim>\<open>with\<close> block ends.\<close>

definition write_sheets :: "url_row list \<Rightarrow> order_row list \<Rightarrow> sheet list" where
  "write_sheets urls_df unmatched_df =
     urls_sheet urls_df # (if unmatched_df \<noteq> [] then [unmatched_sheet unmatched_df] else [])"

text \<open>
  \<^verbatim>\<open>process_pair\<close> on the two frames read from the files; the orders are read first.
\<close>

definition process_pair :: "dataframe \<Rightarrow> dataframe \<Rightarrow> error + sheet list" where
  "process_pair eans_frame orders_frame =
     (case read_orders orders_frame of
        Inl e \<Rightarrow> Inl e
      | Inr orders_df \<Rightarrow>
     (case read_eans eans_frame of
        Inl e \<Rightarrow> Inl e
      | Inr eans_df \<Rightarrow>
          (case build_urls orders_df eans_df of
             (urls_df, unmatched_df) \<Rightarrow> Inr (write_sheets urls_df unmatched_df))))"

section \<open>File-pair discovery: \<^verbatim>\<open>find_file_pairs\<close>\<close>

text \<open>
  A path of the directory is its file name. \<^verbatim>\<open>endswith\<close> is Python's; \<^verbatim>\<open>rfind\<close> gives
  the last position of a character, or -1.
\<close>

definition endswith :: "string \<Rightarrow> string \<Rightarrow> bool" where
  "endswith s suf \<longleftrightarrow> length suf \<le> length s \<and> drop (length s - length suf) s = suf"

definition rfind :: "string \<Rightarrow> char \<Rightarrow> int" where
  "rfind s c =
     (if c \<in> set s then int (length s) - 1 - int (length (takeWhile (\<lambda>x. x \<noteq> c) (rev s)))
      else - 1)"

text \<open>\<^verbatim>\<open>Path.stem\<close>: the name without its last suffix.\<close>

definition stem :: "string \<Rightarrow> string" where
  "stem name =
     (let i = rfind name CHR ''.'' in
      if 0 < i \<and> i < int (length name) - 1 then take (nat i) name else name)"

text \<open>\<^verbatim>\<open>directory.glob("*.xlsx")\<close> keeps the names the pattern matches (case matters).\<close>

definition glob_xlsx :: "string list \<Rightarrow> string list" where
  "glob_xlsx names = filter (\<lambda>n. endswith n ''.xlsx'') names"

text \<open>
  One turn of the loop of lines 19 to 27 on the two dictionaries, kept as association
  lists in insertion order; \<^const>\<open>AList.update\<close> replaces the entry of a key in place, as
  a Python \<^verbatim>\<open>dict\<close> does.
\<close>

definition classify ::
  "string \<Rightarrow> (string \<times> string) list \<times> (string \<times> string) list \<Rightarrow>
   (string \<times> string) list \<times> (string \<times> string) list" where
  "classify path dicts =
     (case dicts of (eans_files, orders_files) \<Rightarrow>
        (let name = stem path; low = lower name in
         if endswith low ''_eans''
         then (AList.update (take (length name - length ''_eans'') name) path eans_files, orders_files)
         else if endswith low ''_orders''
         then (eans_files, AList.update (take (length name - length ''_orders'') name) path orders_files)
         else (eans_files, orders_files)))"

text \<open>
  \<^verbatim>\<open>find_file_pairs\<close> on the names of the directory, in the order \<^verbatim>\<open>glob\<close> yields
  them: triples of the EAN file, the orders file and the base name.
\<close>

definition find_file_pairs :: "string list \<Rightarrow> (string \<times> string \<times> string) list" where
  "find_file_pairs names =
     (case foldl (\<lambda>dicts path. classify path dicts) ([], []) (glob_xlsx names) of
        (eans_files, orders_files) \<Rightarrow>
          concat (map (\<lambda>(base, eans_path).
            case map_of orders_files base of
              Some orders_path \<Rightarrow> [(eans_path, orders_path, base)]
            | None \<Rightarrow> []) eans_files))"

text \<open>
  The two branches of the loop by themselves: whether a path is taken for an EAN file or
  an orders file, under which base name, and the two dictionaries after the loop. They are
  shown below to be what \<^const>\<open>classify\<close> computes.
\<close>

definition eans_base :: "string \<Rightarrow> string" where
  "eans_base p = take (length (stem p) - length ''_eans'') (stem p)"

definition orders_base :: "string \<Rightarrow> string" where
  "orders_base p = take (length (stem p) - length ''_orders'') (stem p)"

definition is_eans :: "string \<Rightarrow> bool" where
  "is_eans p \<longleftrightarrow> endswith (lower (stem p)) ''_eans''"

definition is_orders :: "string \<Rightarrow> bool" where
  "is_orders p \<longleftrightarrow> endswith (lower (stem p)) ''_orders''"

definition eans_dict :: "string list \<Rightarrow> (string \<times> string) list" where
  "eans_dict names =
     foldl (\<lambda>es p. if is_eans p then AList.update (eans_base p) p es else es) [] (glob_xlsx names)"

definition orders_dict :: "string list \<Rightarrow> (string \<times> string) list" where
  "orders_dict names =
     foldl (\<lambda>os p. if is_orders p then AList.update (orders_base p) p os else os) [] (glob_xlsx names)"

section \<open>Properties of the text primitives\<close>

lemma eq_char_of_iff: "c = char_of n \<longleftrightarrow> of_char c = take_bit 8 (n::nat)"
  using char_of_eq_iff [of n c] by auto

text \<open>The definitions a concrete text operation unfolds.\<close>

lemmas text_defs =
  lower_def lower_char_def upper_letter_def strip_def rstrip_chars_def isspace_def
  char_of_eq_iff eq_char_of_iff



text \<open>
  What \<^const>\<open>rstrip_chars\<close> returns is the text without a run of stripped characters at
  its end, and it does not end in one.
\<close>

lemma rstrip_chars_decomp:
  "\<exists>t. s = rstrip_chars p s @ t \<and> (\<forall>c\<in>set t. p c)"
proof -
  have "rev s = takeWhile p (rev s) @ dropWhile p (rev s)" by simp
  then have "s = rev (dropWhile p (rev s)) @ rev (takeWhile p (rev s))"
    by (metis rev_append rev_rev_ident)
  moreover have "\<forall>c\<in>set (rev (takeWhile p (rev s))). p c"
    by (auto dest: set_takeWhileD)
  ultimately show ?thesis unfolding rstrip_chars_def by blast
qed

lemma rstrip_chars_last:
  assumes ne: "rstrip_chars p s \<noteq> []"
  shows "\<not> p (last (rstrip_chars p s))"
proof -
  from ne have "dropWhile p (rev s) \<noteq> []" by (simp add: rstrip_chars_def)
  then have "\<not> p (hd (dropWhile p (rev s)))" by (rule hd_dropWhile)
  moreover have "last (rstrip_chars p s) = hd (dropWhile p (rev s))"
    using ne by (simp add: rstrip_chars_def last_rev)
  ultimately show ?thesis by simp
qed

subsection \<open>The code's text functions and the tables agree\<close>

lemma mem_of_char: "c \<in> set cs \<longleftrightarrow> (of_char c :: nat) \<in> of_char ` set cs"
  by (auto simp: image_iff)

lemma capital_codes:
  "(n::nat) \<in> of_char ` set capital_letters \<longleftrightarrow>
     (65 \<le> n \<and> n \<le> 90) \<or> (192 \<le> n \<and> n \<le> 214) \<or> (216 \<le> n \<and> n \<le> 222)"
  unfolding capital_letters_def
  apply simp
  apply arith
  done

lemma upper_letter_table: "upper_letter c \<longleftrightarrow> c \<in> set capital_letters"
  unfolding mem_of_char [of c capital_letters] capital_codes upper_letter_def Let_def ..

lemma whitespace_codes:
  "(n::nat) \<in> of_char ` set whitespace_chars \<longleftrightarrow>
     (9 \<le> n \<and> n \<le> 13) \<or> (28 \<le> n \<and> n \<le> 32) \<or> n = 133 \<or> n = 160"
  unfolding whitespace_chars_def
  apply simp
  apply arith
  done

lemma isspace_table: "isspace c \<longleftrightarrow> c \<in> set whitespace_chars"
  unfolding mem_of_char [of c whitespace_chars] whitespace_codes isspace_def Let_def ..

lemma lower_char_capitals:
  "\<forall>c\<in>set capital_letters.
     map_of (zip capital_letters small_letters) c = Some (lower_char c)"
  by (simp add: capital_letters_def small_letters_def lower_char_def upper_letter_def
      char_of_eq_iff eq_char_of_iff)

lemma lower_char_table:
  "lower_char c = (case map_of (zip capital_letters small_letters) c of Some d \<Rightarrow> d | None \<Rightarrow> c)"
proof (cases "c \<in> set capital_letters")
  case True
  then show ?thesis using lower_char_capitals by simp
next
  case False
  have "length capital_letters = length small_letters"
    by (simp add: capital_letters_def small_letters_def)
  then have "map fst (zip capital_letters small_letters) = capital_letters"
    by (rule map_fst_zip)
  then have "fst ` set (zip capital_letters small_letters) = set capital_letters"
    by (metis set_map)
  then have "map_of (zip capital_letters small_letters) c = None"
    using False by (simp add: map_of_eq_None_iff)
  moreover have "\<not> upper_letter c" using False by (simp add: upper_letter_table)
  ultimately show ?thesis by (simp add: lower_char_def)
qed

lemma lower_lowercased: "lower s = lowercased s"
  by (simp add: lower_def lowercased_def lower_char_table)


lemma isspace_set: "set a \<subseteq> set whitespace_chars \<longleftrightarrow> (\<forall>c\<in>set a. isspace c)"
  by (auto simp: isspace_table)

lemma dropWhile_all_append:
  "\<forall>c\<in>set a. p c \<Longrightarrow> dropWhile p (a @ ys) = dropWhile p ys"
  by (induction a) simp_all

lemma strip_of_parts:
  assumes a: "\<forall>c\<in>set a. isspace c" and b: "\<forall>c\<in>set b. isspace c"
    and t: "t = [] \<or> (\<not> isspace (hd t) \<and> \<not> isspace (last t))"
  shows "strip (a @ t @ b) = t"
proof (cases "t = []")
  case True
  have "\<forall>c\<in>set (a @ b). isspace c" using a b by auto
  then have d: "dropWhile isspace (a @ b) = []" by (simp only: dropWhile_eq_Nil_conv)
  show ?thesis unfolding True strip_def rstrip_chars_def append_Nil d by simp
next
  case False
  with t have h: "\<not> isspace (hd t)" and l: "\<not> isspace (last t)" by simp_all
  have "dropWhile isspace (a @ t @ b) = dropWhile isspace (t @ b)"
    using a by (rule dropWhile_all_append)
  also have "\<dots> = t @ b" using False h by (cases t) simp_all
  finally have d: "dropWhile isspace (a @ t @ b) = t @ b" .
  have "\<forall>c\<in>set (rev b). isspace c" using b by simp
  then have "dropWhile isspace (rev b @ rev t) = dropWhile isspace (rev t)"
    by (rule dropWhile_all_append)
  also have "\<dots> = rev t"
  proof (cases "rev t")
    case Nil
    then show ?thesis by simp
  next
    case (Cons x xs)
    then have "hd (rev t) = x" by simp
    then have "last t = x" using False by (simp add: hd_rev)
    with l Cons show ?thesis by simp
  qed
  finally have "dropWhile isspace (rev b @ rev t) = rev t" .
  then show ?thesis by (simp add: strip_def rstrip_chars_def d)
qed

lemma strip_parts:
  "\<exists>a b. s = a @ strip s @ b \<and> (\<forall>c\<in>set a. isspace c) \<and> (\<forall>c\<in>set b. isspace c)"
proof -
  obtain b where b: "dropWhile isspace s = strip s @ b" "\<forall>c\<in>set b. isspace c"
    using rstrip_chars_decomp [of "dropWhile isspace s" isspace] by (auto simp: strip_def)
  have "s = takeWhile isspace s @ dropWhile isspace s" by simp
  then have "s = takeWhile isspace s @ strip s @ b" using b(1) by simp
  moreover have "\<forall>c\<in>set (takeWhile isspace s). isspace c" by (auto dest: set_takeWhileD)
  ultimately show ?thesis using b(2) by blast
qed

lemma strip_ends:
  assumes "strip s \<noteq> []"
  shows "\<not> isspace (hd (strip s)) \<and> \<not> isspace (last (strip s))"
proof -
  obtain b where b: "dropWhile isspace s = strip s @ b"
    using rstrip_chars_decomp [of "dropWhile isspace s" isspace] by (auto simp: strip_def)
  with assms have "hd (strip s) = hd (dropWhile isspace s)" by simp
  moreover have "dropWhile isspace s \<noteq> []" using b assms by simp
  then have "\<not> isspace (hd (dropWhile isspace s))" by (rule hd_dropWhile)
  moreover have "\<not> isspace (last (strip s))"
    using assms unfolding strip_def by (rule rstrip_chars_last)
  ultimately show ?thesis by simp
qed

lemma trimmed_iff: "trimmed s t \<longleftrightarrow> t = strip s"
proof
  assume "trimmed s t"
  then obtain a b where "s = a @ t @ b" "\<forall>c\<in>set a. isspace c" "\<forall>c\<in>set b. isspace c"
      "t = [] \<or> (\<not> isspace (hd t) \<and> \<not> isspace (last t))"
    unfolding trimmed_def isspace_set by (auto simp: isspace_table)
  then show "t = strip s" using strip_of_parts by simp
next
  assume t: "t = strip s"
  obtain a b where "s = a @ strip s @ b" "\<forall>c\<in>set a. isspace c" "\<forall>c\<in>set b. isspace c"
    using strip_parts by blast
  moreover have "strip s = [] \<or> (\<not> isspace (hd (strip s)) \<and> \<not> isspace (last (strip s)))"
    using strip_ends by blast
  ultimately show "trimmed s t"
    unfolding trimmed_def isspace_set t by (auto simp: isspace_table)
qed

text \<open>The specification's rule is equality of the keys the code computes.\<close>

lemma products_match_iff: "products_match p q \<longleftrightarrow> product_key q = product_key p"
  by (auto simp: products_match_def trimmed_iff product_key_def lower_lowercased)

section \<open>Properties of the join engine\<close>

lemma set_drop_duplicates: "set (drop_duplicates xs) = set xs"
  by (induction xs rule: drop_duplicates.induct) auto

lemma distinct_drop_duplicates: "distinct (drop_duplicates xs)"
  by (induction xs rule: drop_duplicates.induct) (auto simp: set_drop_duplicates)

text \<open>The matched and the unmatched part of the merged frame, order by order.\<close>

lemma matched_pairs:
  "concat (map (\<lambda>(l, e). case e of None \<Rightarrow> [] | Some c \<Rightarrow> [(l, c)]) (merge_left orders eans)) =
   concat (map (\<lambda>l. map (\<lambda>r. (l, ean_code r)) (partners eans l)) orders)"
proof (induction orders)
  case Nil
  show ?case by (simp add: merge_left_def)
next
  case (Cons l ls)
  have one: "concat (map (\<lambda>(l, e). case e of None \<Rightarrow> [] | Some c \<Rightarrow> [(l, c)])
      (case partners eans l of [] \<Rightarrow> [(l, None)] | rs \<Rightarrow> map (\<lambda>r. (l, Some (ean_code r))) rs)) =
    map (\<lambda>r. (l, ean_code r)) (partners eans l)"
  proof (cases "partners eans l")
    case Nil
    then show ?thesis by simp
  next
    case (Cons r rs)
    have "concat (map (\<lambda>(l, e). case e of None \<Rightarrow> [] | Some c \<Rightarrow> [(l, c)])
        (map (\<lambda>r. (l, Some (ean_code r))) ps)) = map (\<lambda>r. (l, ean_code r)) ps" for ps
      by (induction ps) simp_all
    then show ?thesis using Cons by (simp del: list.map concat.simps)
  qed
  from Cons.IH one show ?case by (simp add: merge_left_def)
qed

lemma unmatched_rows:
  "concat (map (\<lambda>(l, e). case e of None \<Rightarrow> [l] | Some c \<Rightarrow> []) (merge_left orders eans)) =
   filter (\<lambda>l. partners eans l = []) orders"
proof (induction orders)
  case Nil
  show ?case by (simp add: merge_left_def)
next
  case (Cons l ls)
  have one: "concat (map (\<lambda>(l, e). case e of None \<Rightarrow> [l] | Some c \<Rightarrow> [])
      (case partners eans l of [] \<Rightarrow> [(l, None)] | rs \<Rightarrow> map (\<lambda>r. (l, Some (ean_code r))) rs)) =
    (if partners eans l = [] then [l] else [])"
  proof (cases "partners eans l")
    case Nil
    then show ?thesis by simp
  next
    case (Cons r rs)
    have "concat (map (\<lambda>(l, e). case e of None \<Rightarrow> [l] | Some c \<Rightarrow> [])
        (map (\<lambda>r. (l, Some (ean_code r))) ps)) = []" for ps
      by (induction ps) simp_all
    then show ?thesis using Cons by (simp del: list.map concat.simps)
  qed
  from Cons.IH one show ?case by (simp add: merge_left_def)
qed

lemma fst_build_urls: "fst (build_urls orders eans) = sort_key sort_columns (joined orders eans)"
  unfolding build_urls_def Let_def matched_pairs
  by (simp add: joined_def map_concat comp_def)

lemma snd_build_urls:
  "snd (build_urls orders eans) = drop_duplicates (filter (\<lambda>l. partners eans l = []) orders)"
  by (simp add: build_urls_def Let_def unmatched_rows)

lemma set_joined:
  "set (joined orders eans) =
   {compose_row l (ean_code r) | l r. l \<in> set orders \<and> r \<in> set eans \<and>
      product_key (ean_product r) = product_key (product l)}"
  by (auto simp: joined_def partners_def)

lemma set_matched:
  "set (fst (build_urls orders eans)) =
   {compose_row l (ean_code r) | l r. l \<in> set orders \<and> r \<in> set eans \<and>
      product_key (ean_product r) = product_key (product l)}"
  by (simp add: fst_build_urls set_joined)

lemma set_unmatched:
  "set (snd (build_urls orders eans)) = {l \<in> set orders. partners eans l = []}"
  by (simp add: snd_build_urls set_drop_duplicates)

lemma partners_empty_iff:
  "partners eans l = [] \<longleftrightarrow>
   (\<forall>r\<in>set eans. product_key (ean_product r) \<noteq> product_key (product l))"
  by (simp add: partners_def filter_empty_conv)

lemma order_of_compose_row:
  "order_of (compose_row l e) = l\<lparr>base_url := normalize_base (base_url l)\<rparr>"
  by (simp add: order_of_def compose_row_def)

text \<open>The definitions a concrete run of the join unfolds.\<close>

lemmas join_defs =
  build_urls_def merge_left_def partners_def product_key_def text_defs
  compose_row_def normalize_base_def sort_columns_def

subsection \<open>The URL of a matched row\<close>



subsection \<open>No purchase order is lost\<close>

text \<open>
  Claim C3. The purchase orders that occur in the matched or in the unmatched output of
  \<^const>\<open>build_urls\<close> are exactly the purchase orders of the input orders: none disappears
  from both outputs and none is invented.
\<close>

theorem build_urls_purchase_orders:
  "purchase_order ` set (fst (build_urls orders eans)) \<union>
   purchase_order ` set (snd (build_urls orders eans)) = purchase_order ` set orders"
proof (intro equalityI subsetI)
  fix p assume "p \<in> purchase_order ` set (fst (build_urls orders eans)) \<union>
   purchase_order ` set (snd (build_urls orders eans))"
  then show "p \<in> purchase_order ` set orders"
    by (auto simp: set_matched set_unmatched compose_row_def)
next
  fix p assume "p \<in> purchase_order ` set orders"
  then obtain l where l: "l \<in> set orders" "p = purchase_order l" by auto
  show "p \<in> purchase_order ` set (fst (build_urls orders eans)) \<union>
   purchase_order ` set (snd (build_urls orders eans))"
  proof (cases "partners eans l = []")
    case True
    with l have "l \<in> set (snd (build_urls orders eans))" by (simp add: set_unmatched)
    with l show ?thesis by auto
  next
    case False
    then obtain r where r: "r \<in> set (partners eans l)" by (cases "partners eans l") auto
    then have "compose_row l (ean_code r) \<in> set (fst (build_urls orders eans))"
      using l by (auto simp: set_matched partners_def)
    moreover have "purchase_order (compose_row l (ean_code r)) = p"
      using l by (simp add: compose_row_def)
    ultimately show ?thesis by blast
  qed
qed

subsection \<open>Multisets of rows\<close>

lemma sum_list_map_mset:
  fixes f :: "'a \<Rightarrow> 'b multiset"
  shows "sum_list (map f xs) = (\<Sum>x\<in>#mset xs. f x)"
  by (induction xs) simp_all

lemma mset_joined:
  "mset (joined orders eans) =
   (\<Sum>l\<in>#mset orders. image_mset (\<lambda>r. compose_row l (ean_code r))
      (filter_mset (\<lambda>r. product_key (ean_product r) = product_key (product l)) (mset eans)))"
proof -
  have "mset (joined orders eans) =
      sum_list (map (\<lambda>l. mset (map (\<lambda>r. compose_row l (ean_code r)) (partners eans l))) orders)"
    by (simp add: joined_def mset_concat comp_def)
  also have "\<dots> = (\<Sum>l\<in>#mset orders. mset (map (\<lambda>r. compose_row l (ean_code r)) (partners eans l)))"
    by (rule sum_list_map_mset)
  finally show ?thesis by (simp add: partners_def)
qed

lemma mset_joined_cong:
  assumes "mset orders' = mset orders" "mset eans' = mset eans"
  shows "mset (joined orders' eans') = mset (joined orders eans)"
  unfolding mset_joined assms ..

lemma partners_empty_cong:
  assumes "mset eans' = mset eans"
  shows "partners eans' l = [] \<longleftrightarrow> partners eans l = []"
proof -
  have "set eans' = set eans" using assms by (rule mset_eq_setD)
  then show ?thesis by (simp add: partners_empty_iff)
qed

lemma matched_multiset:
  "mset (map order_of (fst (build_urls orders eans))) =
   mset (concat (map (\<lambda>l. replicate (length (partners eans l))
      (l\<lparr>base_url := normalize_base (base_url l)\<rparr>)) orders))"
proof -
  have "mset (map order_of (fst (build_urls orders eans))) = mset (map order_of (joined orders eans))"
    by (simp add: fst_build_urls)
  also have "map order_of (joined orders eans) =
    concat (map (\<lambda>l. replicate (length (partners eans l))
      (l\<lparr>base_url := normalize_base (base_url l)\<rparr>)) orders)"
    by (simp add: joined_def map_concat comp_def order_of_compose_row map_replicate_const)
  finally show ?thesis .
qed

lemma sorted_matched: "sorted (map sort_columns (fst (build_urls orders eans)))"
  by (simp add: fst_build_urls)

lemma sorted_mset_unique:
  fixes xs ys :: "'a::linorder list"
  assumes "mset xs = mset ys" "sorted xs" "sorted ys"
  shows "xs = ys"
proof -
  have "sort ys = xs" using assms(1,2) by (rule properties_for_sort)
  moreover have "sort ys = ys" using assms(3) by (simp add: sort_key_id_if_sorted)
  ultimately show ?thesis by simp
qed

subsection \<open>The outputs projected back to the orders\<close>

text \<open>
  Claim C2 says that the matched and the unmatched rows together, cut down to
  \<^verbatim>\<open>purchase_order\<close>, \<^verbatim>\<open>product\<close> and \<^verbatim>\<open>base_url\<close>, are the input orders again, as a
  multiset. The specification's own first example refutes it, as a multiset and as a set:
  the matched row carries the base URL without its trailing slash.
\<close>

theorem build_urls_projection_counterexample:
  "mset (map order_of (fst (build_urls
        [\<lparr>purchase_order = ''PO1'', product = ''P1'', base_url = ''http://x.com/''\<rparr>]
        [\<lparr>ean_product = ''P1'', ean_code = ''0012345''\<rparr>])) @
      snd (build_urls
        [\<lparr>purchase_order = ''PO1'', product = ''P1'', base_url = ''http://x.com/''\<rparr>]
        [\<lparr>ean_product = ''P1'', ean_code = ''0012345''\<rparr>]))
   \<noteq> mset [\<lparr>purchase_order = ''PO1'', product = ''P1'', base_url = ''http://x.com/''\<rparr>] \<and>
   set (map order_of (fst (build_urls
        [\<lparr>purchase_order = ''PO1'', product = ''P1'', base_url = ''http://x.com/''\<rparr>]
        [\<lparr>ean_product = ''P1'', ean_code = ''0012345''\<rparr>])) @
      snd (build_urls
        [\<lparr>purchase_order = ''PO1'', product = ''P1'', base_url = ''http://x.com/''\<rparr>]
        [\<lparr>ean_product = ''P1'', ean_code = ''0012345''\<rparr>]))
   \<noteq> set [\<lparr>purchase_order = ''PO1'', product = ''P1'', base_url = ''http://x.com/''\<rparr>]"
  by (simp add: join_defs order_of_def)

text \<open>
  Claim C2, amended. As a set, the projected outputs are the input orders, where an order
  with at least one partner has its base URL stripped of trailing slashes and an order
  with none is unchanged. Multiplicities are those of the join: among the matched rows an
  order stands once per partner, and the unmatched rows are the orders without a partner,
  each once, in the order of their first occurrence.
\<close>

theorem build_urls_projection:
  "set (map order_of (fst (build_urls orders eans))) \<union> set (snd (build_urls orders eans)) =
     (\<lambda>l. if partners eans l = [] then l else l\<lparr>base_url := normalize_base (base_url l)\<rparr>) ` set orders
   \<and> mset (map order_of (fst (build_urls orders eans))) =
     mset (concat (map (\<lambda>l. replicate (length (partners eans l))
       (l\<lparr>base_url := normalize_base (base_url l)\<rparr>)) orders))
   \<and> snd (build_urls orders eans) = drop_duplicates (filter (\<lambda>l. partners eans l = []) orders)"
proof (intro conjI)
  have m: "set (map order_of (fst (build_urls orders eans))) =
      (\<lambda>l. l\<lparr>base_url := normalize_base (base_url l)\<rparr>) ` {l \<in> set orders. partners eans l \<noteq> []}"
  proof (intro equalityI subsetI)
    fix x assume "x \<in> set (map order_of (fst (build_urls orders eans)))"
    then obtain l r where lr: "l \<in> set orders" "r \<in> set eans"
        "product_key (ean_product r) = product_key (product l)"
        "x = order_of (compose_row l (ean_code r))"
      by (auto simp: set_matched)
    then have "partners eans l \<noteq> []" by (auto simp: partners_empty_iff)
    with lr show "x \<in> (\<lambda>l. l\<lparr>base_url := normalize_base (base_url l)\<rparr>) `
        {l \<in> set orders. partners eans l \<noteq> []}"
      by (auto simp: order_of_compose_row)
  next
    fix x assume "x \<in> (\<lambda>l. l\<lparr>base_url := normalize_base (base_url l)\<rparr>) `
        {l \<in> set orders. partners eans l \<noteq> []}"
    then obtain l where l: "l \<in> set orders" "partners eans l \<noteq> []"
        "x = l\<lparr>base_url := normalize_base (base_url l)\<rparr>"
      by auto
    then obtain r where "r \<in> set eans" "product_key (ean_product r) = product_key (product l)"
      by (auto simp: partners_empty_iff)
    with l have "compose_row l (ean_code r) \<in> set (fst (build_urls orders eans))"
      by (auto simp: set_matched)
    then have "order_of (compose_row l (ean_code r)) \<in> set (map order_of (fst (build_urls orders eans)))"
      by simp
    with l show "x \<in> set (map order_of (fst (build_urls orders eans)))"
      by (simp only: order_of_compose_row)
  qed
  show "set (map order_of (fst (build_urls orders eans))) \<union> set (snd (build_urls orders eans)) =
     (\<lambda>l. if partners eans l = [] then l else l\<lparr>base_url := normalize_base (base_url l)\<rparr>) ` set orders"
    unfolding m set_unmatched by (auto simp: image_iff)
  show "mset (map order_of (fst (build_urls orders eans))) =
     mset (concat (map (\<lambda>l. replicate (length (partners eans l))
       (l\<lparr>base_url := normalize_base (base_url l)\<rparr>)) orders))"
    by (rule matched_multiset)
  show "snd (build_urls orders eans) = drop_duplicates (filter (\<lambda>l. partners eans l = []) orders)"
    by (rule snd_build_urls)
qed

subsection \<open>Permuting the input rows\<close>

text \<open>
  Claim C5 says that permuting the input rows leaves the matched rows unchanged, their
  order included. Two orders that agree on \<^verbatim>\<open>product\<close> and \<^verbatim>\<open>purchase_order\<close> and differ
  in \<^verbatim>\<open>base_url\<close> tie on the three sort columns; the sort is stable, so they leave in the
  order in which they came.
\<close>

theorem build_urls_permutation_counterexample:
  "mset [\<lparr>purchase_order = ''PO1'', product = ''P1'', base_url = ''http://b''\<rparr>,
         \<lparr>purchase_order = ''PO1'', product = ''P1'', base_url = ''http://a''\<rparr>] =
   mset [\<lparr>purchase_order = ''PO1'', product = ''P1'', base_url = ''http://a''\<rparr>,
         \<lparr>purchase_order = ''PO1'', product = ''P1'', base_url = ''http://b''\<rparr>] \<and>
   fst (build_urls
     [\<lparr>purchase_order = ''PO1'', product = ''P1'', base_url = ''http://b''\<rparr>,
      \<lparr>purchase_order = ''PO1'', product = ''P1'', base_url = ''http://a''\<rparr>]
     [\<lparr>ean_product = ''P1'', ean_code = ''1''\<rparr>]) \<noteq>
   fst (build_urls
     [\<lparr>purchase_order = ''PO1'', product = ''P1'', base_url = ''http://a''\<rparr>,
      \<lparr>purchase_order = ''PO1'', product = ''P1'', base_url = ''http://b''\<rparr>]
     [\<lparr>ean_product = ''P1'', ean_code = ''1''\<rparr>])"
  by (simp add: join_defs)

text \<open>What a permutation of the inputs preserves.\<close>

lemma permutation_core:
  assumes o: "mset orders' = mset orders" and e: "mset eans' = mset eans"
  shows "mset (fst (build_urls orders' eans')) = mset (fst (build_urls orders eans))
    \<and> map sort_columns (fst (build_urls orders' eans')) = map sort_columns (fst (build_urls orders eans))
    \<and> mset (snd (build_urls orders' eans')) = mset (snd (build_urls orders eans))
    \<and> (inj_on sort_columns (set (fst (build_urls orders eans))) \<longrightarrow>
         fst (build_urls orders' eans') = fst (build_urls orders eans))"
proof -
  let ?A = "fst (build_urls orders' eans')" and ?B = "fst (build_urls orders eans)"
  have m: "mset ?A = mset ?B"
    by (simp add: fst_build_urls mset_joined_cong[OF o e])
  have "mset (map sort_columns ?A) = mset (map sort_columns ?B)"
    using m by simp
  then have k: "map sort_columns ?A = map sort_columns ?B"
    by (rule sorted_mset_unique) (rule sorted_matched)+
  have "set (snd (build_urls orders' eans')) = set (snd (build_urls orders eans))"
    using mset_eq_setD[OF o] by (simp add: set_unmatched partners_empty_cong[OF e])
  then have u: "mset (snd (build_urls orders' eans')) = mset (snd (build_urls orders eans))"
    by (simp add: snd_build_urls set_eq_iff_mset_eq_distinct[symmetric] distinct_drop_duplicates)
  have i: "?A = ?B" if "inj_on sort_columns (set ?B)"
  proof -
    have "set ?A = set ?B" using m by (rule mset_eq_setD)
    with that have "inj_on sort_columns (set ?A \<union> set ?B)" by simp
    with k show ?thesis by (simp add: inj_on_map_eq_map)
  qed
  from m k u i show ?thesis by blast
qed

text \<open>
  Claim C5, amended. For permuted inputs the matched output is the same multiset of rows
  with the same sequence of sort columns (\<^verbatim>\<open>product\<close>, \<^verbatim>\<open>purchase_order\<close>, \<^verbatim>\<open>ean\<close>), and
  the unmatched output is the same multiset of rows. When no two different matched rows
  tie on the sort columns, the matched output is the same sequence. What does follow the
  input order: the matched rows with the same sort columns stand in the order in which the
  join produces them (\<^const>\<open>joined\<close>: the orders in input order, each with its matching EAN
  records in input order), and the unmatched rows are the orders without a matching EAN
  record in the order of their first occurrence.
\<close>

theorem build_urls_permutation:
  assumes o: "mset orders' = mset orders" and e: "mset eans' = mset eans"
  shows "mset (fst (build_urls orders' eans')) = mset (fst (build_urls orders eans))
    \<and> map sort_columns (fst (build_urls orders' eans')) = map sort_columns (fst (build_urls orders eans))
    \<and> mset (snd (build_urls orders' eans')) = mset (snd (build_urls orders eans))
    \<and> (inj_on sort_columns (set (fst (build_urls orders eans))) \<longrightarrow>
         fst (build_urls orders' eans') = fst (build_urls orders eans))
    \<and> (\<forall>k. filter (\<lambda>r. sort_columns r = k) (fst (build_urls orders' eans')) =
            filter (\<lambda>r. sort_columns r = k) (joined orders' eans'))
    \<and> snd (build_urls orders' eans') =
         drop_duplicates (filter (\<lambda>l. partners eans' l = []) orders')"
proof -
  have a: "mset (fst (build_urls orders' eans')) = mset (fst (build_urls orders eans))
    \<and> map sort_columns (fst (build_urls orders' eans')) = map sort_columns (fst (build_urls orders eans))
    \<and> mset (snd (build_urls orders' eans')) = mset (snd (build_urls orders eans))
    \<and> (inj_on sort_columns (set (fst (build_urls orders eans))) \<longrightarrow>
         fst (build_urls orders' eans') = fst (build_urls orders eans))"
    using o e by (rule permutation_core)
  have b: "\<forall>k. filter (\<lambda>r. sort_columns r = k) (fst (build_urls orders' eans')) =
            filter (\<lambda>r. sort_columns r = k) (joined orders' eans')"
    by (simp add: fst_build_urls sort_key_stable)
  have c: "snd (build_urls orders' eans') =
         drop_duplicates (filter (\<lambda>l. partners eans' l = []) orders')"
    by (rule snd_build_urls)
  from a b c show ?thesis by (intro conjI) blast+
qed

theorem build_urls_permutation_witness:
  "mset [\<lparr>purchase_order = ''PO2'', product = ''P2'', base_url = ''http://b''\<rparr>,
         \<lparr>purchase_order = ''PO1'', product = ''P1'', base_url = ''http://a/''\<rparr>] =
   mset [\<lparr>purchase_order = ''PO1'', product = ''P1'', base_url = ''http://a/''\<rparr>,
         \<lparr>purchase_order = ''PO2'', product = ''P2'', base_url = ''http://b''\<rparr>] \<and>
   mset [\<lparr>ean_product = ''p1'', ean_code = ''2''\<rparr>, \<lparr>ean_product = ''P1'', ean_code = ''1''\<rparr>] =
   mset [\<lparr>ean_product = ''P1'', ean_code = ''1''\<rparr>, \<lparr>ean_product = ''p1'', ean_code = ''2''\<rparr>] \<and>
   fst (build_urls
     [\<lparr>purchase_order = ''PO2'', product = ''P2'', base_url = ''http://b''\<rparr>,
      \<lparr>purchase_order = ''PO1'', product = ''P1'', base_url = ''http://a/''\<rparr>]
     [\<lparr>ean_product = ''p1'', ean_code = ''2''\<rparr>, \<lparr>ean_product = ''P1'', ean_code = ''1''\<rparr>]) =
   fst (build_urls
     [\<lparr>purchase_order = ''PO1'', product = ''P1'', base_url = ''http://a/''\<rparr>,
      \<lparr>purchase_order = ''PO2'', product = ''P2'', base_url = ''http://b''\<rparr>]
     [\<lparr>ean_product = ''P1'', ean_code = ''1''\<rparr>, \<lparr>ean_product = ''p1'', ean_code = ''2''\<rparr>]) \<and>
   mset (snd (build_urls
     [\<lparr>purchase_order = ''PO2'', product = ''P2'', base_url = ''http://b''\<rparr>,
      \<lparr>purchase_order = ''PO1'', product = ''P1'', base_url = ''http://a/''\<rparr>]
     [\<lparr>ean_product = ''p1'', ean_code = ''2''\<rparr>, \<lparr>ean_product = ''P1'', ean_code = ''1''\<rparr>])) =
   mset [\<lparr>purchase_order = ''PO2'', product = ''P2'', base_url = ''http://b''\<rparr>]"
proof -
  let ?o1 = "\<lparr>purchase_order = ''PO1'', product = ''P1'', base_url = ''http://a/''\<rparr>"
  let ?o2 = "\<lparr>purchase_order = ''PO2'', product = ''P2'', base_url = ''http://b''\<rparr>"
  let ?e1 = "\<lparr>ean_product = ''P1'', ean_code = ''1''\<rparr>"
  let ?e2 = "\<lparr>ean_product = ''p1'', ean_code = ''2''\<rparr>"
  have o: "mset [?o2, ?o1] = mset [?o1, ?o2]" by simp
  have e: "mset [?e2, ?e1] = mset [?e1, ?e2]" by simp
  have inj: "inj_on sort_columns (set (fst (build_urls [?o1, ?o2] [?e1, ?e2])))"
    by (simp add: join_defs)
  have u: "snd (build_urls [?o1, ?o2] [?e1, ?e2]) = [?o2]"
    by (simp add: join_defs)
  note p = build_urls_permutation [OF o e]
  from p have "inj_on sort_columns (set (fst (build_urls [?o1, ?o2] [?e1, ?e2]))) \<longrightarrow>
      fst (build_urls [?o2, ?o1] [?e2, ?e1]) = fst (build_urls [?o1, ?o2] [?e1, ?e2])"
    by (rule conjunct1 [OF conjunct2 [OF conjunct2 [OF conjunct2]]])
  with inj have f: "fst (build_urls [?o2, ?o1] [?e2, ?e1]) = fst (build_urls [?o1, ?o2] [?e1, ?e2])"
    by (rule rev_mp)
  from p have "mset (snd (build_urls [?o2, ?o1] [?e2, ?e1])) = mset (snd (build_urls [?o1, ?o2] [?e1, ?e2]))"
    by (rule conjunct1 [OF conjunct2 [OF conjunct2]])
  then have s: "mset (snd (build_urls [?o2, ?o1] [?e2, ?e1])) = mset [?o2]"
    by (simp only: u)
  from o e f s show ?thesis by (intro conjI)
qed

subsection \<open>Which rows join\<close>

lemma build_urls_one:
  "build_urls [l] [r] =
     (if products_match (product l) (ean_product r)
      then ([compose_row l (ean_code r)], []) else ([], [l]))"
  by (auto simp: build_urls_def merge_left_def partners_def products_match_iff)

text \<open>
  Claim C6. Matching in \<^const>\<open>build_urls\<close> ignores case and surrounding whitespace of the
  product codes: an order row and an EAN row join exactly when their products match in the
  specification's sense (\<^const>\<open>products_match\<close>: equal once trimmed and lower-cased). For one
  order and one EAN record this decides between one matched row and one unmatched row; in
  general the matched rows are the rows composed of the matching pairs; and an order of
  product \<^verbatim>\<open>"ABC "\<close> joins an EAN record of product \<^verbatim>\<open>"abc"\<close>.
\<close>

theorem build_urls_matching:
  "build_urls [l] [r] =
     (if products_match (product l) (ean_product r)
      then ([compose_row l (ean_code r)], []) else ([], [l]))
   \<and> set (fst (build_urls orders eans)) =
     {compose_row l (ean_code r) | l r. l \<in> set orders \<and> r \<in> set eans \<and>
        products_match (product l) (ean_product r)}
   \<and> build_urls [\<lparr>purchase_order = po, product = ''ABC '', base_url = b\<rparr>]
        [\<lparr>ean_product = ''abc'', ean_code = e\<rparr>] =
     ([compose_row \<lparr>purchase_order = po, product = ''ABC '', base_url = b\<rparr> e], [])"
proof (intro conjI)
  show "build_urls [l] [r] =
     (if products_match (product l) (ean_product r)
      then ([compose_row l (ean_code r)], []) else ([], [l]))"
    by (rule build_urls_one)
  show "set (fst (build_urls orders eans)) =
     {compose_row l (ean_code r) | l r. l \<in> set orders \<and> r \<in> set eans \<and>
        products_match (product l) (ean_product r)}"
    by (simp add: set_matched products_match_iff)
  have "product_key ''abc'' = product_key ''ABC ''"
    by (simp add: product_key_def text_defs)
  then show "build_urls [\<lparr>purchase_order = po, product = ''ABC '', base_url = b\<rparr>]
        [\<lparr>ean_product = ''abc'', ean_code = e\<rparr>] =
     ([compose_row \<lparr>purchase_order = po, product = ''ABC '', base_url = b\<rparr> e], [])"
    by (simp add: build_urls_one products_match_iff)
qed

text \<open>
  The product \<^verbatim>\<open>"ABC "\<close> matches \<^verbatim>\<open>"abc"\<close>, and \<^verbatim>\<open>"P9"\<close> does not match \<^verbatim>\<open>"P1"\<close>: the
  order stays unmatched.
\<close>

theorem build_urls_matching_witness:
  "products_match ''ABC '' ''abc'' \<and> \<not> products_match ''P9'' ''P1'' \<and>
   build_urls [\<lparr>purchase_order = ''PO2'', product = ''P9'', base_url = ''http://y.com''\<rparr>]
     [\<lparr>ean_product = ''P1'', ean_code = ''0012345''\<rparr>] =
   ([], [\<lparr>purchase_order = ''PO2'', product = ''P9'', base_url = ''http://y.com''\<rparr>])"
proof -
  let ?l = "\<lparr>purchase_order = ''PO1'', product = ''ABC '', base_url = ''http://x.com/''\<rparr>"
  let ?r = "\<lparr>ean_product = ''abc'', ean_code = ''0012345''\<rparr>"
  let ?l2 = "\<lparr>purchase_order = ''PO2'', product = ''P9'', base_url = ''http://y.com''\<rparr>"
  let ?r2 = "\<lparr>ean_product = ''P1'', ean_code = ''0012345''\<rparr>"
  have e1: "build_urls [?l] [?r] = ([compose_row ?l ''0012345''], [])"
    by (simp add: join_defs)
  have e2: "build_urls [?l2] [?r2] = ([], [?l2])"
    by (simp add: join_defs)
  have "build_urls [?l] [?r] =
      (if products_match (product ?l) (ean_product ?r)
       then ([compose_row ?l (ean_code ?r)], []) else ([], [?l]))"
    by (rule conjunct1 [OF build_urls_matching])
  with e1 have m1: "products_match ''ABC '' ''abc''"
    by (simp split: if_splits)
  have "build_urls [?l2] [?r2] =
      (if products_match (product ?l2) (ean_product ?r2)
       then ([compose_row ?l2 (ean_code ?r2)], []) else ([], [?l2]))"
    by (rule conjunct1 [OF build_urls_matching])
  with e2 have m2: "\<not> products_match ''P9'' ''P1''"
    by (simp split: if_splits)
  from m1 m2 e2 show ?thesis by (intro conjI)
qed

subsection \<open>The join never fails\<close>




section \<open>Properties of the output writer\<close>

lemmas reader_defs =
  process_pair_def read_orders_def read_eans_def read_orders_columns_def read_eans_columns_def
  normalize_column_names_def lower_map_def getitem_def astype_str_strip_def absent_def

lemma write_sheets_urls: "''urls'' \<in> fst ` set (write_sheets m u)"
  by (simp add: write_sheets_def urls_sheet_def)

lemma write_sheets_unmatched: "''unmatched_orders'' \<in> fst ` set (write_sheets m u) \<longleftrightarrow> u \<noteq> []"
  by (cases "u = []") (simp_all add: write_sheets_def urls_sheet_def unmatched_sheet_def)

lemma process_pair_Inr:
  assumes "process_pair ef orf = Inr wb"
  shows "\<exists>os es. read_orders orf = Inr os \<and> read_eans ef = Inr es \<and>
           wb = write_sheets (fst (build_urls os es)) (snd (build_urls os es))"
  using assms by (auto simp: process_pair_def split: sum.splits prod.splits)

lemma process_pair_example:
  "process_pair [(''product'', [Some ''P1'']), (''ean'', [Some ''0012345''])]
     [(''PO'', [Some ''PO2'']), (''SKU'', [Some ''P9'']), (''url'', [Some ''http://y.com''])] =
   Inr (write_sheets [] [\<lparr>purchase_order = ''PO2'', product = ''P9'', base_url = ''http://y.com''\<rparr>])"
  by (simp add: reader_defs join_defs)

text \<open>
  Claim C9. The workbook written always holds the sheet \<^verbatim>\<open>urls\<close>, also when there is no
  matched row, and holds the sheet \<^verbatim>\<open>unmatched_orders\<close> exactly when there is an
  unmatched row; every workbook \<^const>\<open>process_pair\<close> returns is written this way from the
  result of \<^const>\<open>build_urls\<close>.
\<close>

theorem write_sheets_names:
  "''urls'' \<in> fst ` set (write_sheets matched unmatched)
   \<and> (''unmatched_orders'' \<in> fst ` set (write_sheets matched unmatched) \<longleftrightarrow> unmatched \<noteq> [])
   \<and> (\<forall>wb. process_pair ef orf = Inr wb \<longrightarrow>
        (\<exists>os es. read_orders orf = Inr os \<and> read_eans ef = Inr es \<and>
           wb = write_sheets (fst (build_urls os es)) (snd (build_urls os es)) \<and>
           ''urls'' \<in> fst ` set wb \<and>
           (''unmatched_orders'' \<in> fst ` set wb \<longleftrightarrow> snd (build_urls os es) \<noteq> [])))"
proof (intro conjI allI impI)
  show "''urls'' \<in> fst ` set (write_sheets matched unmatched)"
    by (rule write_sheets_urls)
  show "''unmatched_orders'' \<in> fst ` set (write_sheets matched unmatched) \<longleftrightarrow> unmatched \<noteq> []"
    by (rule write_sheets_unmatched)
next
  fix wb assume "process_pair ef orf = Inr wb"
  then obtain os es where r: "read_orders orf = Inr os" "read_eans ef = Inr es"
      "wb = write_sheets (fst (build_urls os es)) (snd (build_urls os es))"
    using process_pair_Inr by blast
  have "''urls'' \<in> fst ` set wb" unfolding r(3) by (rule write_sheets_urls)
  moreover have "''unmatched_orders'' \<in> fst ` set wb \<longleftrightarrow> snd (build_urls os es) \<noteq> []"
    unfolding r(3) by (rule write_sheets_unmatched)
  ultimately show "\<exists>os es. read_orders orf = Inr os \<and> read_eans ef = Inr es \<and>
           wb = write_sheets (fst (build_urls os es)) (snd (build_urls os es)) \<and>
           ''urls'' \<in> fst ` set wb \<and>
           (''unmatched_orders'' \<in> fst ` set wb \<longleftrightarrow> snd (build_urls os es) \<noteq> [])"
    using r by blast
qed

text \<open>A pair of files whose only order has no EAN record: both sheets are written.\<close>

theorem write_sheets_names_witness:
  "process_pair [(''product'', [Some ''P1'']), (''ean'', [Some ''0012345''])]
     [(''PO'', [Some ''PO2'']), (''SKU'', [Some ''P9'']), (''url'', [Some ''http://y.com''])] =
   Inr (write_sheets [] [\<lparr>purchase_order = ''PO2'', product = ''P9'', base_url = ''http://y.com''\<rparr>]) \<and>
   ''urls'' \<in> fst ` set (write_sheets []
     [\<lparr>purchase_order = ''PO2'', product = ''P9'', base_url = ''http://y.com''\<rparr>]) \<and>
   ''unmatched_orders'' \<in> fst ` set (write_sheets []
     [\<lparr>purchase_order = ''PO2'', product = ''P9'', base_url = ''http://y.com''\<rparr>])"
proof -
  let ?EF = "[(''product'', [Some ''P1'']), (''ean'', [Some ''0012345''])]"
  let ?OF = "[(''PO'', [Some ''PO2'']), (''SKU'', [Some ''P9'']), (''url'', [Some ''http://y.com''])]"
  let ?u = "[\<lparr>purchase_order = ''PO2'', product = ''P9'', base_url = ''http://y.com''\<rparr>]"
  have pp: "process_pair ?EF ?OF = Inr (write_sheets [] ?u)"
    by (rule process_pair_example)
  note n = write_sheets_names [of "[]" ?u ?EF ?OF]
  from n have a: "''urls'' \<in> fst ` set (write_sheets [] ?u)"
    by (rule conjunct1)
  from n have "''unmatched_orders'' \<in> fst ` set (write_sheets [] ?u) \<longleftrightarrow> ?u \<noteq> []"
    by (rule conjunct1 [OF conjunct2])
  then have b: "''unmatched_orders'' \<in> fst ` set (write_sheets [] ?u)"
    by simp
  from pp a b show ?thesis by (intro conjI)
qed

section \<open>Properties of the record normaliser\<close>





lemma length_normalize_column_names [simp]:
  "length (normalize_column_names df) = length df"
  by (simp add: normalize_column_names_def)

subsection \<open>When column resolution fails\<close>




subsection \<open>Which column is the product\<close>
















section \<open>Properties of the file-pair discovery\<close>

subsection \<open>Suffixes\<close>

lemma endswith_iff: "endswith s suf \<longleftrightarrow> (\<exists>pre. s = pre @ suf)"
proof
  assume "endswith s suf"
  then have "drop (length s - length suf) s = suf" by (simp add: endswith_def)
  moreover have "s = take (length s - length suf) s @ drop (length s - length suf) s" by simp
  ultimately have "s = take (length s - length suf) s @ suf" by simp
  then show "\<exists>pre. s = pre @ suf" ..
next
  assume "\<exists>pre. s = pre @ suf"
  then show "endswith s suf" by (auto simp: endswith_def)
qed

lemma length_lower [simp]: "length (lower s) = length s"
  by (simp add: lower_def)

lemma lower_append: "lower (a @ b) = lower a @ lower b"
  by (simp add: lower_def)

lemma endswith_lower_iff:
  "endswith (lower s) k \<longleftrightarrow> (\<exists>b suf. s = b @ suf \<and> lower suf = k)"
proof
  assume e: "endswith (lower s) k"
  let ?n = "length s - length k"
  have "lower (drop ?n s) = k"
    using e by (simp add: endswith_def lower_def drop_map)
  moreover have "s = take ?n s @ drop ?n s" by simp
  ultimately show "\<exists>b suf. s = b @ suf \<and> lower suf = k" by blast
next
  assume "\<exists>b suf. s = b @ suf \<and> lower suf = k"
  then obtain b suf where "s = b @ suf" "lower suf = k" by blast
  then have "lower s = lower b @ k" by (simp add: lower_append)
  then show "endswith (lower s) k" unfolding endswith_iff by blast
qed

lemma base_unique:
  assumes "s = b @ suf" "lower suf = k"
  shows "take (length s - length k) s = b"
proof -
  have "length suf = length k" using assms(2) length_lower [of suf] by simp
  then show ?thesis using assms(1) by simp
qed

lemma eans_not_orders:
  assumes "endswith t ''_eans''" "endswith t ''_orders''"
  shows False
proof -
  obtain a where a: "t = a @ ''_eans''" using assms(1) unfolding endswith_iff by blast
  obtain b where b: "t = b @ ''_orders''" using assms(2) unfolding endswith_iff by blast
  have "rev t = ''snae_'' @ rev a" using a by simp
  moreover have "rev t = ''sredro_'' @ rev b" using b by simp
  ultimately show False by simp
qed

subsection \<open>The loop and the two dictionaries\<close>

lemma classify_eq:
  "classify p (es, os) =
     (if is_eans p then AList.update (eans_base p) p es else es,
      if is_orders p then AList.update (orders_base p) p os else os)"
  using eans_not_orders [of "lower (stem p)"]
  by (auto simp: classify_def Let_def is_eans_def is_orders_def eans_base_def orders_base_def)

lemma foldl_classify:
  "foldl (\<lambda>d p. classify p d) (es, os) ps =
     (foldl (\<lambda>es p. if is_eans p then AList.update (eans_base p) p es else es) es ps,
      foldl (\<lambda>os p. if is_orders p then AList.update (orders_base p) p os else os) os ps)"
  by (induction ps arbitrary: es os) (simp_all add: classify_eq)

lemma foldl_update_distinct:
  "distinct (map fst es) \<Longrightarrow>
   distinct (map fst (foldl (\<lambda>es p. if sel p then AList.update (key p) p es else es) es ps))"
  by (induction ps arbitrary: es) (simp_all add: distinct_update)

lemma foldl_update_Some:
  assumes "map_of (foldl (\<lambda>es p. if sel p then AList.update (key p) p es else es) es ps) b = Some q"
  shows "map_of es b = Some q \<or> (q \<in> set ps \<and> sel q \<and> key q = b)"
  using assms
proof (induction ps arbitrary: es)
  case Nil
  then show ?case by simp
next
  case (Cons p ps)
  let ?E = "if sel p then AList.update (key p) p es else es"
  from Cons.prems have "map_of (foldl (\<lambda>es p. if sel p then AList.update (key p) p es else es) ?E ps) b = Some q"
    by simp
  then have "map_of ?E b = Some q \<or> (q \<in> set ps \<and> sel q \<and> key q = b)"
    by (rule Cons.IH)
  then show ?case
    by (auto simp: update_conv' split: if_splits)
qed

lemma foldl_update_dom:
  assumes "map_of es b \<noteq> None \<or> (\<exists>q\<in>set ps. sel q \<and> key q = b)"
  shows "map_of (foldl (\<lambda>es p. if sel p then AList.update (key p) p es else es) es ps) b \<noteq> None"
  using assms
proof (induction ps arbitrary: es)
  case Nil
  then show ?case by simp
next
  case (Cons p ps)
  let ?E = "if sel p then AList.update (key p) p es else es"
  from Cons.prems have "map_of ?E b \<noteq> None \<or> (\<exists>q\<in>set ps. sel q \<and> key q = b)"
    by (auto simp: update_conv')
  then have "map_of (foldl (\<lambda>es p. if sel p then AList.update (key p) p es else es) ?E ps) b \<noteq> None"
    by (rule Cons.IH)
  then show ?case by simp
qed

lemma pairs_set:
  "(ep, orp, b) \<in> set (concat (map (\<lambda>(base, eans_path).
       case map_of os base of Some orders_path \<Rightarrow> [(eans_path, orders_path, base)] | None \<Rightarrow> []) es))
   \<longleftrightarrow> (b, ep) \<in> set es \<and> map_of os b = Some orp"
  by (induction es) (auto split: option.splits)

lemma find_file_pairs_mem:
  "(ep, orp, b) \<in> set (find_file_pairs names) \<longleftrightarrow>
     map_of (eans_dict names) b = Some ep \<and> map_of (orders_dict names) b = Some orp"
proof -
  have d: "distinct (map fst (eans_dict names))"
    unfolding eans_dict_def by (rule foldl_update_distinct) simp
  have "(ep, orp, b) \<in> set (find_file_pairs names) \<longleftrightarrow>
      (b, ep) \<in> set (eans_dict names) \<and> map_of (orders_dict names) b = Some orp"
    unfolding find_file_pairs_def foldl_classify eans_dict_def [symmetric] orders_dict_def [symmetric]
    by (auto simp: pairs_set)
  then show ?thesis using d by simp
qed

lemma suffix_of_lower:
  assumes "endswith (lower s) k" "take (length s - length k) s = b"
  shows "\<exists>suf. s = b @ suf \<and> lowercased suf = k"
proof -
  obtain b' suf where s: "s = b' @ suf" "lower suf = k"
    using assms(1) unfolding endswith_lower_iff by blast
  then have "take (length s - length k) s = b'" by (rule base_unique)
  with assms(2) s show ?thesis by (auto simp: lower_lowercased)
qed

lemma eans_entry:
  assumes "map_of (eans_dict names) b = Some ep"
  shows "ep \<in> set names \<and> (\<exists>pre. ep = pre @ ''.xlsx'') \<and>
    (\<exists>suf. stem ep = b @ suf \<and> lowercased suf = ''_eans'')"
proof -
  from assms have "map_of [] b = Some ep \<or> (ep \<in> set (glob_xlsx names) \<and> is_eans ep \<and> eans_base ep = b)"
    unfolding eans_dict_def by (rule foldl_update_Some)
  then have m: "ep \<in> set (glob_xlsx names)" and e: "is_eans ep" and k: "eans_base ep = b" by simp_all
  from e k have "\<exists>suf. stem ep = b @ suf \<and> lowercased suf = ''_eans''"
    unfolding is_eans_def eans_base_def by (rule suffix_of_lower)
  with m show ?thesis by (auto simp: glob_xlsx_def endswith_iff)
qed

lemma orders_entry:
  assumes "map_of (orders_dict names) b = Some orp"
  shows "orp \<in> set names \<and> (\<exists>pre. orp = pre @ ''.xlsx'') \<and>
    (\<exists>suf. stem orp = b @ suf \<and> lowercased suf = ''_orders'')"
proof -
  from assms have "map_of [] b = Some orp \<or>
      (orp \<in> set (glob_xlsx names) \<and> is_orders orp \<and> orders_base orp = b)"
    unfolding orders_dict_def by (rule foldl_update_Some)
  then have m: "orp \<in> set (glob_xlsx names)" and e: "is_orders orp" and k: "orders_base orp = b"
    by simp_all
  from e k have "\<exists>suf. stem orp = b @ suf \<and> lowercased suf = ''_orders''"
    unfolding is_orders_def orders_base_def by (rule suffix_of_lower)
  with m show ?thesis by (auto simp: glob_xlsx_def endswith_iff)
qed

lemma eans_dom:
  assumes "ep \<in> set names" "ep = pre @ ''.xlsx''" "stem ep = b @ suf" "lowercased suf = ''_eans''"
  shows "map_of (eans_dict names) b \<noteq> None"
proof -
  have g: "ep \<in> set (glob_xlsx names)" using assms(1,2) by (auto simp: glob_xlsx_def endswith_iff)
  have l: "lower suf = ''_eans''" using assms(4) by (simp add: lower_lowercased)
  have "is_eans ep" unfolding is_eans_def endswith_lower_iff using assms(3) l by blast
  moreover have "eans_base ep = b"
    unfolding eans_base_def using assms(3) l by (rule base_unique)
  ultimately have "map_of [] b \<noteq> None \<or> (\<exists>q\<in>set (glob_xlsx names). is_eans q \<and> eans_base q = b)"
    using g by blast
  then show ?thesis unfolding eans_dict_def by (rule foldl_update_dom)
qed

lemma orders_dom:
  assumes "orp \<in> set names" "orp = pre @ ''.xlsx''" "stem orp = b @ suf" "lowercased suf = ''_orders''"
  shows "map_of (orders_dict names) b \<noteq> None"
proof -
  have g: "orp \<in> set (glob_xlsx names)" using assms(1,2) by (auto simp: glob_xlsx_def endswith_iff)
  have l: "lower suf = ''_orders''" using assms(4) by (simp add: lower_lowercased)
  have "is_orders orp" unfolding is_orders_def endswith_lower_iff using assms(3) l by blast
  moreover have "orders_base orp = b"
    unfolding orders_base_def using assms(3) l by (rule base_unique)
  ultimately have "map_of [] b \<noteq> None \<or> (\<exists>q\<in>set (glob_xlsx names). is_orders q \<and> orders_base q = b)"
    using g by blast
  then show ?thesis unfolding orders_dict_def by (rule foldl_update_dom)
qed

text \<open>The definitions a concrete run of the discovery unfolds.\<close>

lemmas discovery_defs =
  find_file_pairs_def glob_xlsx_def endswith_def classify_def stem_def rfind_def

lemma pairs_example_mixed: "find_file_pairs [''Foo_EANS.xlsx'', ''foo_orders.xlsx''] = []"
  by (simp add: discovery_defs text_defs)

lemma pairs_example_same:
  "find_file_pairs [''Foo_EANS.xlsx'', ''Foo_orders.xlsx''] =
     [(''Foo_EANS.xlsx'', ''Foo_orders.xlsx'', ''Foo'')]"
  by (simp add: discovery_defs text_defs)

subsection \<open>Which files are paired\<close>

text \<open>
  Claim C10. \<^const>\<open>find_file_pairs\<close> pairs only names of the directory that end in
  \<^verbatim>\<open>.xlsx\<close>; the stem of the EAN file is the base name followed by \<^verbatim>\<open>_eans\<close> in any case,
  the stem of the orders file is the same base name followed by \<^verbatim>\<open>_orders\<close> in any case;
  a base name is paired exactly when the directory has such an EAN file and such an orders
  file for this very base name, letter case included. So \<^verbatim>\<open>Foo_EANS.xlsx\<close> and
  \<^verbatim>\<open>foo_orders.xlsx\<close> are not paired, while \<^verbatim>\<open>Foo_EANS.xlsx\<close> and \<^verbatim>\<open>Foo_orders.xlsx\<close> are.
\<close>

theorem find_file_pairs_bases:
  "((ep, orp, b) \<in> set (find_file_pairs names) \<longrightarrow>
      ep \<in> set names \<and> orp \<in> set names \<and>
      (\<exists>pre. ep = pre @ ''.xlsx'') \<and> (\<exists>pre. orp = pre @ ''.xlsx'') \<and>
      (\<exists>suf. stem ep = b @ suf \<and> lowercased suf = ''_eans'') \<and>
      (\<exists>suf. stem orp = b @ suf \<and> lowercased suf = ''_orders''))
   \<and> ((\<exists>ep orp. (ep, orp, b) \<in> set (find_file_pairs names)) \<longleftrightarrow>
      (\<exists>ep pre suf. ep \<in> set names \<and> ep = pre @ ''.xlsx'' \<and>
         stem ep = b @ suf \<and> lowercased suf = ''_eans'') \<and>
      (\<exists>orp pre suf. orp \<in> set names \<and> orp = pre @ ''.xlsx'' \<and>
         stem orp = b @ suf \<and> lowercased suf = ''_orders''))
   \<and> find_file_pairs [''Foo_EANS.xlsx'', ''foo_orders.xlsx''] = []
   \<and> find_file_pairs [''Foo_EANS.xlsx'', ''Foo_orders.xlsx''] =
        [(''Foo_EANS.xlsx'', ''Foo_orders.xlsx'', ''Foo'')]"
proof -
  have p1: "(ep, orp, b) \<in> set (find_file_pairs names) \<longrightarrow>
      ep \<in> set names \<and> orp \<in> set names \<and>
      (\<exists>pre. ep = pre @ ''.xlsx'') \<and> (\<exists>pre. orp = pre @ ''.xlsx'') \<and>
      (\<exists>suf. stem ep = b @ suf \<and> lowercased suf = ''_eans'') \<and>
      (\<exists>suf. stem orp = b @ suf \<and> lowercased suf = ''_orders'')"
  proof
    assume "(ep, orp, b) \<in> set (find_file_pairs names)"
    then have m: "map_of (eans_dict names) b = Some ep" "map_of (orders_dict names) b = Some orp"
      by (simp_all add: find_file_pairs_mem)
    from eans_entry [OF m(1)] orders_entry [OF m(2)]
    show "ep \<in> set names \<and> orp \<in> set names \<and>
        (\<exists>pre. ep = pre @ ''.xlsx'') \<and> (\<exists>pre. orp = pre @ ''.xlsx'') \<and>
        (\<exists>suf. stem ep = b @ suf \<and> lowercased suf = ''_eans'') \<and>
        (\<exists>suf. stem orp = b @ suf \<and> lowercased suf = ''_orders'')"
      by blast
  qed
  have p2: "(\<exists>ep orp. (ep, orp, b) \<in> set (find_file_pairs names)) \<longleftrightarrow>
      (\<exists>ep pre suf. ep \<in> set names \<and> ep = pre @ ''.xlsx'' \<and>
         stem ep = b @ suf \<and> lowercased suf = ''_eans'') \<and>
      (\<exists>orp pre suf. orp \<in> set names \<and> orp = pre @ ''.xlsx'' \<and>
         stem orp = b @ suf \<and> lowercased suf = ''_orders'')"
  proof
    assume "\<exists>ep orp. (ep, orp, b) \<in> set (find_file_pairs names)"
    then obtain ep orp where m: "map_of (eans_dict names) b = Some ep"
        "map_of (orders_dict names) b = Some orp"
      by (auto simp: find_file_pairs_mem)
    from eans_entry [OF m(1)] orders_entry [OF m(2)]
    show "(\<exists>ep pre suf. ep \<in> set names \<and> ep = pre @ ''.xlsx'' \<and>
         stem ep = b @ suf \<and> lowercased suf = ''_eans'') \<and>
      (\<exists>orp pre suf. orp \<in> set names \<and> orp = pre @ ''.xlsx'' \<and>
         stem orp = b @ suf \<and> lowercased suf = ''_orders'')"
      by blast
  next
    assume "(\<exists>ep pre suf. ep \<in> set names \<and> ep = pre @ ''.xlsx'' \<and>
         stem ep = b @ suf \<and> lowercased suf = ''_eans'') \<and>
      (\<exists>orp pre suf. orp \<in> set names \<and> orp = pre @ ''.xlsx'' \<and>
         stem orp = b @ suf \<and> lowercased suf = ''_orders'')"
    then obtain ep pre suf orp pre' suf' where
        e: "ep \<in> set names" "ep = pre @ ''.xlsx''" "stem ep = b @ suf" "lowercased suf = ''_eans''"
      and r: "orp \<in> set names" "orp = pre' @ ''.xlsx''" "stem orp = b @ suf'"
        "lowercased suf' = ''_orders''"
      by blast
    from e have "map_of (eans_dict names) b \<noteq> None" by (rule eans_dom)
    moreover from r have "map_of (orders_dict names) b \<noteq> None" by (rule orders_dom)
    ultimately obtain x y where "map_of (eans_dict names) b = Some x"
        "map_of (orders_dict names) b = Some y"
      by blast
    then have "(x, y, b) \<in> set (find_file_pairs names)" by (simp add: find_file_pairs_mem)
    then show "\<exists>ep orp. (ep, orp, b) \<in> set (find_file_pairs names)" by blast
  qed
  note p3 = pairs_example_mixed and p4 = pairs_example_same
  from p1 p2 p3 p4 show ?thesis by (intro conjI)
qed

text \<open>The pair found in a directory of two files with the same base name.\<close>

theorem find_file_pairs_bases_witness:
  "(''Foo_EANS.xlsx'', ''Foo_orders.xlsx'', ''Foo'') \<in>
     set (find_file_pairs [''Foo_EANS.xlsx'', ''Foo_orders.xlsx'']) \<and>
   (\<exists>suf. stem ''Foo_EANS.xlsx'' = ''Foo'' @ suf \<and> lowercased suf = ''_eans'') \<and>
   (\<exists>suf. stem ''Foo_orders.xlsx'' = ''Foo'' @ suf \<and> lowercased suf = ''_orders'')"
proof -
  let ?names = "[''Foo_EANS.xlsx'', ''Foo_orders.xlsx'']"
  have m: "(''Foo_EANS.xlsx'', ''Foo_orders.xlsx'', ''Foo'') \<in> set (find_file_pairs ?names)"
    by (simp add: pairs_example_same)
  have "(''Foo_EANS.xlsx'', ''Foo_orders.xlsx'', ''Foo'') \<in> set (find_file_pairs ?names) \<longrightarrow>
      ''Foo_EANS.xlsx'' \<in> set ?names \<and> ''Foo_orders.xlsx'' \<in> set ?names \<and>
      (\<exists>pre. ''Foo_EANS.xlsx'' = pre @ ''.xlsx'') \<and> (\<exists>pre. ''Foo_orders.xlsx'' = pre @ ''.xlsx'') \<and>
      (\<exists>suf. stem ''Foo_EANS.xlsx'' = ''Foo'' @ suf \<and> lowercased suf = ''_eans'') \<and>
      (\<exists>suf. stem ''Foo_orders.xlsx'' = ''Foo'' @ suf \<and> lowercased suf = ''_orders'')"
    by (rule conjunct1 [OF find_file_pairs_bases])
  with m show ?thesis by blast
qed

end
